theory Spec2Isabelle
  imports Main "HOL-Library.AList" "HOL-Library.Multiset" "HOL-Library.Sublist" "HOL-Library.Word"
begin

section \<open>Values shared by the three components\<close>

text \<open>
  The module \<open>src/validators/utils.py\<close> is glue code: it drives an HTTP session, two
  chain readers, a process pool, the file system and a Merkle library. Exceptions are
  values of \<open>exn\<close>; every function that can raise returns \<open>exn + 'a\<close> with \<open>Inl\<close> for
  the exception. All constructors stand for subclasses of Python's \<open>Exception\<close>.
\<close>

type_synonym bytes = "8 word list"

datatype exn =
    ClientError string
  | TimeoutError
  | RegistryRootChangedError
  | ValidatorIndexChangedError
  | RuntimeError string
  | KeystoreException string
  | KeyError string
  | TypeError
  | ValueError string
  | FileNotFoundError
  | IsADirectoryError
  | NotADirectoryError
  | OtherException string

text \<open>The tuple \<open>(ClientError, asyncio.TimeoutError)\<close> of both \<open>except\<close> clauses.\<close>

fun is_aiohttp_error :: "exn \<Rightarrow> bool" where
  "is_aiohttp_error (ClientError _) = True"
| "is_aiohttp_error TimeoutError = True"
| "is_aiohttp_error _ = False"

text \<open>A decoded JSON document; an object keeps its members as an association list.\<close>

datatype json =
    JNull
  | JBool bool
  | JInt int
  | JStr string
  | JList "json list"
  | JObj "(string \<times> json) list"

text \<open>
  Python's \<open>data[key]\<close> with a string key: a dict raises \<open>KeyError\<close> on a missing key,
  every other JSON value raises \<open>TypeError\<close>.
\<close>

fun subscript :: "json \<Rightarrow> string \<Rightarrow> exn + json" where
  "subscript (JObj kvs) k = (case map_of kvs k of None \<Rightarrow> Inl (KeyError k) | Some v \<Rightarrow> Inr v)"
| "subscript _ k = Inl TypeError"

text \<open>\<open>Web3.to_hex\<close> on a byte string: \<open>0x\<close> and two lower-case digits for each byte.\<close>

definition hex_digit :: "nat \<Rightarrow> char" where
  "hex_digit n = ''0123456789abcdef'' ! n"

definition to_hex :: "bytes \<Rightarrow> string" where
  "to_hex bs =
     ''0x'' @ concat (map (\<lambda>b. [hex_digit (unat b div 16), hex_digit (unat b mod 16)]) bs)"

section \<open>Oracle approval requests\<close>

record ApprovalRequest =
  validator_index :: int
  validators_root :: string
  deadline :: int

text \<open>
  The field \<open>deadline\<close> of \<open>OracleApproval\<close> is \<open>approval_deadline\<close> here, the name
  \<open>deadline\<close> being taken by the request. The fields come from the oracle's JSON answer
  as they are; only the signature is decoded.
\<close>

record OracleApproval =
  ipfs_hash :: json
  signature :: bytes
  approval_deadline :: json

record Oracles =
  addresses :: "string list"
  endpoints :: "string list list"
  validators_threshold :: nat

record response =
  status :: nat
  json_body :: "exn + json"

text \<open>
  Every call that leaves the process is logged in a trace, in the order the calls are
  made. What the outside world answers is a function of the trace so far (and of the
  arguments), so that a replica may fail once and answer later, and the registry root may
  change between two reads. \<open>draws\<close> is the stream of numbers the random generator will
  return.
\<close>

datatype event =
    EvPost string
  | EvGetRegistryRoot
  | EvGetLatestPublicKeys
  | EvGetNextValidatorIndex

record world =
  trace :: "event list"
  draws :: "nat list"

text \<open>
  The collaborators that are not part of this module: the HTTP session, the registry
  contract, the execution-layer reader, the validator database,
  \<open>Web3.to_bytes(hexstr=...)\<close>, \<open>process_oracles_approvals\<close>, and the number of times the
  retry decorator re-invokes a call before its time budget \<open>DEFAULT_RETRY_TIME\<close> is spent.
\<close>

record 'oa env =
  session_post :: "event list \<Rightarrow> string \<Rightarrow> ApprovalRequest \<Rightarrow> exn + response"
  get_registry_root :: "event list \<Rightarrow> exn + bytes"
  get_latest_network_validator_public_keys :: "event list \<Rightarrow> exn + string list"
  get_next_validator_index :: "event list \<Rightarrow> string list \<Rightarrow> exn + int"
  to_bytes :: "json \<Rightarrow> exn + bytes"
  process_oracles_approvals :: "(string \<times> OracleApproval) list \<Rightarrow> nat \<Rightarrow> exn + 'oa"
  max_retries :: nat

definition log_event :: "event \<Rightarrow> world \<Rightarrow> world" where
  "log_event ev w = w\<lparr>trace := trace w @ [ev]\<rparr>"

text \<open>
  The body of the \<open>try\<close> block of \<open>send_approval_request\<close>: post, log a 400 body (which
  reads the JSON body and may raise), \<open>raise_for_status\<close> (an error for every status from
  400 on), then read the JSON body.
\<close>

definition post_json :: "'oa env \<Rightarrow> event list \<Rightarrow> string \<Rightarrow> ApprovalRequest \<Rightarrow> exn + json" where
  "post_json env tr endpoint payload =
     (case session_post env tr endpoint payload of
        Inl e \<Rightarrow> Inl e
      | Inr resp \<Rightarrow>
          if status resp = 400 then
            (case json_body resp of
               Inl e \<Rightarrow> Inl e
             | Inr _ \<Rightarrow> Inl (ClientError ''ClientResponseError''))
          else if 400 \<le> status resp then Inl (ClientError ''ClientResponseError'')
          else json_body resp)"

text \<open>The \<open>except\<close> handler of \<open>send_approval_request\<close>, entered with the caught error.\<close>

definition classify_failure ::
  "'oa env \<Rightarrow> ApprovalRequest \<Rightarrow> exn \<Rightarrow> world \<Rightarrow> (exn + OracleApproval) \<times> world" where
  "classify_failure env payload e w =
     (let w1 = log_event EvGetRegistryRoot w in
      case get_registry_root env (trace w) of
        Inl e1 \<Rightarrow> (Inl e1, w1)
      | Inr registry_root \<Rightarrow>
          if to_hex registry_root \<noteq> validators_root payload
          then (Inl RegistryRootChangedError, w1)
          else
            (let w2 = log_event EvGetLatestPublicKeys w1 in
             case get_latest_network_validator_public_keys env (trace w1) of
               Inl e2 \<Rightarrow> (Inl e2, w2)
             | Inr latest_public_keys \<Rightarrow>
                 (let w3 = log_event EvGetNextValidatorIndex w2 in
                  case get_next_validator_index env (trace w2) latest_public_keys of
                    Inl e3 \<Rightarrow> (Inl e3, w3)
                  | Inr next_index \<Rightarrow>
                      if next_index \<noteq> validator_index payload
                      then (Inl ValidatorIndexChangedError, w3)
                      else (Inl e, w3))))"

text \<open>The construction of the \<open>OracleApproval\<close> after the \<open>try\<close> statement.\<close>

definition make_approval :: "'oa env \<Rightarrow> json \<Rightarrow> exn + OracleApproval" where
  "make_approval env data =
     (case subscript data ''ipfs_hash'' of
        Inl e \<Rightarrow> Inl e
      | Inr h \<Rightarrow>
          (case subscript data ''signature'' of
             Inl e \<Rightarrow> Inl e
           | Inr s \<Rightarrow>
               (case to_bytes env s of
                  Inl e \<Rightarrow> Inl e
                | Inr sig \<Rightarrow>
                    (case subscript data ''deadline'' of
                       Inl e \<Rightarrow> Inl e
                     | Inr d \<Rightarrow>
                         Inr \<lparr>ipfs_hash = h, signature = sig, approval_deadline = d\<rparr>))))"

definition send_approval_request ::
  "'oa env \<Rightarrow> string \<Rightarrow> ApprovalRequest \<Rightarrow> world \<Rightarrow> (exn + OracleApproval) \<times> world" where
  "send_approval_request env endpoint payload w =
     (let w1 = log_event (EvPost endpoint) w in
      case post_json env (trace w) endpoint payload of
        Inl e \<Rightarrow>
          if is_aiohttp_error e then classify_failure env payload e w1 else (Inl e, w1)
      | Inr data \<Rightarrow> (make_approval env data, w1))"

text \<open>
  \<open>random.sample(replicas, len(replicas))\<close>: the selection loop of the standard library
  over a copy of the list. Each round draws an index below the number of elements not
  yet selected, takes that element and moves the last unselected element into its place.
\<close>

fun sample_loop :: "nat \<Rightarrow> nat list \<Rightarrow> 'a list \<Rightarrow> 'a list \<times> nat list" where
  "sample_loop 0 ds pool = ([], ds)"
| "sample_loop (Suc m) ds pool =
     (let j = (case ds of [] \<Rightarrow> 0 | d # _ \<Rightarrow> d mod Suc m);
          x = pool ! j;
          pool' = butlast (pool[j := last pool]);
          (xs, ds') = sample_loop m (tl ds) pool'
      in (x # xs, ds'))"

definition random_sample :: "nat list \<Rightarrow> 'a list \<Rightarrow> 'a list \<times> nat list" where
  "random_sample ds population = sample_loop (length population) ds population"

text \<open>
  The \<open>for endpoint in replicas\<close> loop of \<open>send_approval_request_to_replicas\<close> together
  with the two statements after it; \<open>last_error\<close> is the loop's variable of that name.
\<close>

fun try_replicas ::
  "'oa env \<Rightarrow> string list \<Rightarrow> ApprovalRequest \<Rightarrow> exn option \<Rightarrow> world
     \<Rightarrow> (exn + OracleApproval) \<times> world" where
  "try_replicas env [] payload last_error w =
     (case last_error of
        Some e \<Rightarrow> (Inl e, w)
      | None \<Rightarrow> (Inl (RuntimeError ''Failed to get response from replicas''), w))"
| "try_replicas env (endpoint # rest) payload last_error w =
     (case send_approval_request env endpoint payload w of
        (Inr approval, w') \<Rightarrow> (Inr approval, w')
      | (Inl e, w') \<Rightarrow>
          if is_aiohttp_error e then try_replicas env rest payload (Some e) w'
          else (Inl e, w'))"

text \<open>One invocation of the function body of \<open>send_approval_request_to_replicas\<close>.\<close>

definition send_approval_request_to_replicas_body ::
  "'oa env \<Rightarrow> string list \<Rightarrow> ApprovalRequest \<Rightarrow> world \<Rightarrow> (exn + OracleApproval) \<times> world" where
  "send_approval_request_to_replicas_body env replicas payload w =
     (case random_sample (draws w) replicas of
        (shuffled, ds) \<Rightarrow> try_replicas env shuffled payload None (w\<lparr>draws := ds\<rparr>))"

text \<open>
  Modelled from the spec: the decorator \<open>retry_aiohttp_errors\<close> of the package
  \<open>sw_utils\<close>, which is not part of this repository's sources. A call that raised a
  transient network error or a timeout is invoked again while the time budget lasts; any
  other outcome is returned as it is. The budget is counted in invocations.
\<close>

fun retry_aiohttp_errors ::
  "nat \<Rightarrow> (world \<Rightarrow> (exn + 'a) \<times> world) \<Rightarrow> world \<Rightarrow> (exn + 'a) \<times> world" where
  "retry_aiohttp_errors 0 f w = f w"
| "retry_aiohttp_errors (Suc n) f w =
     (case f w of
        (Inr v, w') \<Rightarrow> (Inr v, w')
      | (Inl e, w') \<Rightarrow>
          if is_aiohttp_error e then retry_aiohttp_errors n f w' else (Inl e, w'))"

definition send_approval_request_to_replicas ::
  "'oa env \<Rightarrow> string list \<Rightarrow> ApprovalRequest \<Rightarrow> world \<Rightarrow> (exn + OracleApproval) \<times> world" where
  "send_approval_request_to_replicas env replicas payload =
     retry_aiohttp_errors (max_retries env)
       (send_approval_request_to_replicas_body env replicas payload)"

text \<open>
  \<open>asyncio.gather(..., return_exceptions=True)\<close>: one task per oracle, every outcome
  kept, an exception as a value. The tasks are run one after the other here; since the
  answers of the outside world are arbitrary functions of the trace, every sequence of
  answers a task can see in an interleaved run is covered.
\<close>

fun gather ::
  "'oa env \<Rightarrow> string list list \<Rightarrow> ApprovalRequest \<Rightarrow> world
     \<Rightarrow> (exn + OracleApproval) list \<times> world" where
  "gather env [] payload w = ([], w)"
| "gather env (replicas # rest) payload w =
     (case send_approval_request_to_replicas env replicas payload w of
        (r, w') \<Rightarrow> (case gather env rest payload w' of (rs, w'') \<Rightarrow> (r # rs, w'')))"

text \<open>
  The loop over \<open>zip(oracles.addresses, oracles.endpoints, results)\<close>: the dictionary
  \<open>approvals\<close> (insertion-ordered, a later value for the same key replaces the earlier
  one in place) and the list \<open>failed_endpoints\<close>.
\<close>

fun collect_results ::
  "(string \<times> string list \<times> (exn + OracleApproval)) list
     \<Rightarrow> (string \<times> OracleApproval) list \<Rightarrow> string list
     \<Rightarrow> (string \<times> OracleApproval) list \<times> string list" where
  "collect_results [] approvals failed_endpoints = (approvals, failed_endpoints)"
| "collect_results ((address, replicas, Inl e) # rest) approvals failed_endpoints =
     collect_results rest approvals (failed_endpoints @ replicas)"
| "collect_results ((address, replicas, Inr approval) # rest) approvals failed_endpoints =
     collect_results rest (AList.update address approval approvals) failed_endpoints"

definition aggregate ::
  "string list \<Rightarrow> string list list \<Rightarrow> (exn + OracleApproval) list
     \<Rightarrow> (string \<times> OracleApproval) list \<times> string list" where
  "aggregate addrs eps results = collect_results (zip addrs (zip eps results)) [] []"

definition send_approval_requests ::
  "'oa env \<Rightarrow> Oracles \<Rightarrow> ApprovalRequest \<Rightarrow> world \<Rightarrow> (exn + 'oa) \<times> world" where
  "send_approval_requests env oracles request w =
     (case gather env (map snd (zip (addresses oracles) (endpoints oracles))) request w of
        (results, w') \<Rightarrow>
          (case aggregate (addresses oracles) (endpoints oracles) results of
             (approvals, failed_endpoints) \<Rightarrow>
               (process_oracles_approvals env approvals (validators_threshold oracles), w')))"

section \<open>Keystores\<close>

text \<open>
  A path is the list of its components, \<open>dir / name\<close> appends one. The file system maps
  a path to a file with its text or to a directory with the names \<open>listdir\<close> returns,
  in the order it returns them.
\<close>

type_synonym path = "string list"

datatype node = File string | Dir "string list"

type_synonym filesystem = "path \<Rightarrow> node option"

record settings =
  keystores_dir :: path
  keystores_password_dir :: path
  keystores_password_file :: path
  pool_size :: nat

record KeystoreFile =
  name :: string
  password :: string

definition path_join :: "path \<Rightarrow> string \<Rightarrow> path" where
  "path_join d f = d @ [f]"

definition listdir :: "filesystem \<Rightarrow> path \<Rightarrow> exn + string list" where
  "listdir fs d =
     (case fs d of
        None \<Rightarrow> Inl FileNotFoundError
      | Some (File _) \<Rightarrow> Inl NotADirectoryError
      | Some (Dir names) \<Rightarrow> Inr names)"

definition isfile :: "filesystem \<Rightarrow> path \<Rightarrow> bool" where
  "isfile fs p = (case fs p of Some (File _) \<Rightarrow> True | _ \<Rightarrow> False)"

text \<open>
  \<open>str.strip()\<close> removes leading and trailing whitespace. A character is a code point
  below 256; these are the ones \<open>str.isspace\<close> accepts.
\<close>

definition is_space :: "char \<Rightarrow> bool" where
  "is_space c = (of_char c \<in> set [9, 10, 11, 12, 13, 28, 29, 30, 31, 32, 133, 160 :: nat])"

definition strip :: "string \<Rightarrow> string" where
  "strip s = rev (dropWhile is_space (rev (dropWhile is_space s)))"

text \<open>
  \<open>str.replace(old, new)\<close> for a non-empty \<open>old\<close>: every occurrence, found from left
  to right without overlap, is replaced. The counter is the number of characters of the
  occurrence just replaced that are still to be skipped.
\<close>

fun replace_from :: "string \<Rightarrow> string \<Rightarrow> nat \<Rightarrow> string \<Rightarrow> string" where
  "replace_from old new skip [] = []"
| "replace_from old new (Suc skip) (c # cs) = replace_from old new skip cs"
| "replace_from old new 0 (c # cs) =
     (if prefix old (c # cs) then new @ replace_from old new (length old - 1) cs
      else c # replace_from old new 0 cs)"

definition str_replace :: "string \<Rightarrow> string \<Rightarrow> string \<Rightarrow> string" where
  "str_replace old new s = replace_from old new 0 s"

text \<open>\<open>_load_keystores_password\<close>: the text of the file, stripped.\<close>

definition load_keystores_password :: "filesystem \<Rightarrow> path \<Rightarrow> exn + string" where
  "load_keystores_password fs password_path =
     (case fs password_path of
        None \<Rightarrow> Inl FileNotFoundError
      | Some (Dir _) \<Rightarrow> Inl IsADirectoryError
      | Some (File content) \<Rightarrow> Inr (strip content))"

text \<open>The test of the \<open>if not (...): continue\<close> at the head of the loop body.\<close>

definition is_keystore_name :: "settings \<Rightarrow> filesystem \<Rightarrow> string \<Rightarrow> bool" where
  "is_keystore_name st fs f =
     (isfile fs (path_join (keystores_dir st) f) \<and> prefix ''keystore'' f \<and> suffix ''.json'' f)"

text \<open>The password file the loop body settles on for the keystore named \<open>f\<close>.\<close>

definition password_file_for :: "settings \<Rightarrow> filesystem \<Rightarrow> string \<Rightarrow> path" where
  "password_file_for st fs f =
     (let password_file = path_join (keystores_password_dir st) (str_replace ''.json'' ''.txt'' f)
      in if \<not> isfile fs password_file then keystores_password_file st else password_file)"

fun list_keystore_files_loop ::
  "settings \<Rightarrow> filesystem \<Rightarrow> string list \<Rightarrow> KeystoreFile list \<Rightarrow> exn + KeystoreFile list" where
  "list_keystore_files_loop st fs [] res = Inr res"
| "list_keystore_files_loop st fs (f # rest) res =
     (if \<not> is_keystore_name st fs f then list_keystore_files_loop st fs rest res
      else
        (case load_keystores_password fs (password_file_for st fs f) of
           Inl e \<Rightarrow> Inl e
         | Inr pw \<Rightarrow>
             list_keystore_files_loop st fs rest (res @ [\<lparr>name = f, password = pw\<rparr>])))"

definition list_keystore_files :: "settings \<Rightarrow> filesystem \<Rightarrow> exn + KeystoreFile list" where
  "list_keystore_files st fs =
     (case listdir fs (keystores_dir st) of
        Inl e \<Rightarrow> Inl e
      | Inr names \<Rightarrow> list_keystore_files_loop st fs names [])"

text \<open>
  The keystore library and the BLS binding are outside this module:
  \<open>ScryptKeystore.from_file\<close>, \<open>keystore.decrypt\<close> and \<open>bls.SkToPk\<close>.
\<close>

record 'ks keystore_lib =
  from_file :: "filesystem \<Rightarrow> path \<Rightarrow> exn + 'ks"
  decrypt :: "'ks \<Rightarrow> string \<Rightarrow> exn + bytes"
  SkToPk :: "bytes \<Rightarrow> exn + bytes"

definition quoted :: "string \<Rightarrow> string" where
  "quoted s = [CHR 0x22] @ s @ [CHR 0x22]"

text \<open>\<open>_process_keystore_file\<close>; both handlers catch \<open>BaseException\<close>, that is everything.\<close>

definition process_keystore_file ::
  "'ks keystore_lib \<Rightarrow> filesystem \<Rightarrow> KeystoreFile \<Rightarrow> path \<Rightarrow> exn + (string \<times> bytes)" where
  "process_keystore_file lib fs keystore_file keystore_path =
     (let file_name = name keystore_file;
          keystores_password = password keystore_file;
          file_path = path_join keystore_path file_name
      in case from_file lib fs file_path of
           Inl e \<Rightarrow>
             Inl (KeystoreException (''Invalid keystore format in file '' @ quoted file_name))
         | Inr keystore \<Rightarrow>
             (case decrypt lib keystore keystores_password of
                Inl e \<Rightarrow>
                  Inl (KeystoreException (''Invalid password for keystore '' @ quoted file_name))
              | Inr private_key \<Rightarrow>
                  (case SkToPk lib private_key of
                     Inl e \<Rightarrow> Inl e
                   | Inr pk \<Rightarrow> Inr (to_hex pk, private_key))))"

text \<open>
  The process pool. Every file is submitted with \<open>apply_async\<close>, in order, before any
  result is read. The error callback \<open>_stop_pool\<close> closes the pool, and \<open>apply_async\<close> on
  a closed pool raises \<open>ValueError\<close>; whether the callback of a failed task has already
  run when a later file is submitted is a matter of timing, given here by \<open>sched j i\<close>:
  the callback of task \<open>j\<close> has run before submission \<open>i\<close>.
\<close>

definition pool_closed :: "(nat \<Rightarrow> nat \<Rightarrow> bool) \<Rightarrow> (exn + 'a) list \<Rightarrow> nat \<Rightarrow> bool" where
  "pool_closed sched outcomes i = list_ex (\<lambda>j. isl (outcomes ! j) \<and> sched j i) [0..<i]"

definition apply_async_all ::
  "(nat \<Rightarrow> nat \<Rightarrow> bool) \<Rightarrow> (exn + 'a) list \<Rightarrow> exn + (exn + 'a) list" where
  "apply_async_all sched outcomes =
     (if list_ex (pool_closed sched outcomes) [0..<length outcomes]
      then Inl (ValueError ''Pool not running'')
      else Inr outcomes)"

text \<open>
  The loop over the results: \<open>result.get()\<close> returns the pair or re-raises what the task
  raised; a \<open>KeystoreException\<close> becomes the \<open>RuntimeError\<close>, anything else leaves the
  function as it is. \<open>keystores\<close> is the dictionary built so far.
\<close>

fun collect_keystores ::
  "(exn + (string \<times> bytes)) list \<Rightarrow> (string \<times> bytes) list \<Rightarrow> exn + (string \<times> bytes) list" where
  "collect_keystores [] keystores = Inr keystores"
| "collect_keystores (Inr (pub_key, priv_key) # rest) keystores =
     collect_keystores rest (AList.update pub_key priv_key keystores)"
| "collect_keystores (Inl (KeystoreException m) # rest) keystores =
     Inl (RuntimeError ''Failed to load keystores'')"
| "collect_keystores (Inl e # rest) keystores = Inl e"

definition load_keystores ::
  "'ks keystore_lib \<Rightarrow> settings \<Rightarrow> filesystem \<Rightarrow> (nat \<Rightarrow> nat \<Rightarrow> bool)
     \<Rightarrow> exn + (string \<times> bytes) list" where
  "load_keystores lib st fs sched =
     (case list_keystore_files st fs of
        Inl e \<Rightarrow> Inl e
      | Inr keystore_files \<Rightarrow>
          (case apply_async_all sched
                  (map (\<lambda>keystore_file.
                          process_keystore_file lib fs keystore_file (keystores_dir st))
                       keystore_files) of
             Inl e \<Rightarrow> Inl e
           | Inr results \<Rightarrow> collect_keystores results []))"

section \<open>The validators tree\<close>

text \<open>
  The field \<open>signature\<close> of \<open>Validator\<close> is \<open>deposit_signature\<close> here, the name \<open>signature\<close>
  being taken by \<open>OracleApproval\<close>.
\<close>

record Validator =
  deposit_data_index :: nat
  public_key :: string
  deposit_signature :: string

text \<open>
  What the builder calls and does not define: \<open>get_eth1_withdrawal_credentials\<close>,
  \<open>encode_tx_validator\<close>, \<open>add_0x_prefix\<close> and \<open>StandardMerkleTree.of\<close>. The tree type
  belongs to the Merkle library; \<open>tree_root\<close> and \<open>tree_get_proof\<close> are its \<open>root\<close>
  attribute and its \<open>get_proof\<close> method, used here only to state what a caller reads
  from the tree.
\<close>

record 't merkle_lib =
  get_eth1_withdrawal_credentials :: "string \<Rightarrow> exn + bytes"
  encode_tx_validator :: "bytes \<Rightarrow> Validator \<Rightarrow> exn + bytes"
  add_0x_prefix :: "json \<Rightarrow> exn + string"
  StandardMerkleTree_of :: "(bytes \<times> nat) list \<Rightarrow> string list \<Rightarrow> exn + 't"
  tree_root :: "'t \<Rightarrow> bytes"
  tree_get_proof :: "'t \<Rightarrow> bytes \<times> nat \<Rightarrow> exn + bytes list"

text \<open>
  The loop \<open>for i, data in enumerate(deposit_data)\<close>; \<open>i\<close> is the index of the head of
  the remaining entries, \<open>leaves\<close> and \<open>validators\<close> are the two lists built so far.
\<close>

fun build_leaves ::
  "'t merkle_lib \<Rightarrow> bytes \<Rightarrow> json list \<Rightarrow> nat \<Rightarrow> (bytes \<times> nat) list \<Rightarrow> Validator list
     \<Rightarrow> exn + ((bytes \<times> nat) list \<times> Validator list)" where
  "build_leaves lib credentials [] i leaves validators = Inr (leaves, validators)"
| "build_leaves lib credentials (data # rest) i leaves validators =
     (case subscript data ''pubkey'' of
        Inl e \<Rightarrow> Inl e
      | Inr pk \<Rightarrow>
          (case add_0x_prefix lib pk of
             Inl e \<Rightarrow> Inl e
           | Inr pk0x \<Rightarrow>
               (case subscript data ''signature'' of
                  Inl e \<Rightarrow> Inl e
                | Inr sg \<Rightarrow>
                    (case add_0x_prefix lib sg of
                       Inl e \<Rightarrow> Inl e
                     | Inr sg0x \<Rightarrow>
                         (let validator =
                                \<lparr>deposit_data_index = i, public_key = pk0x,
                                 deposit_signature = sg0x\<rparr>
                          in case encode_tx_validator lib credentials validator of
                               Inl e \<Rightarrow> Inl e
                             | Inr leaf \<Rightarrow>
                                 build_leaves lib credentials rest (Suc i)
                                   (leaves @ [(leaf, i)]) (validators @ [validator]))))))"

definition generate_validators_tree ::
  "'t merkle_lib \<Rightarrow> string \<Rightarrow> json list \<Rightarrow> exn + ('t \<times> Validator list)" where
  "generate_validators_tree lib vault deposit_data =
     (case get_eth1_withdrawal_credentials lib vault of
        Inl e \<Rightarrow> Inl e
      | Inr credentials \<Rightarrow>
          (case build_leaves lib credentials deposit_data 0 [] [] of
             Inl e \<Rightarrow> Inl e
           | Inr (leaves, validators) \<Rightarrow>
               (case StandardMerkleTree_of lib leaves [''bytes'', ''uint256''] of
                  Inl e \<Rightarrow> Inl e
                | Inr tree \<Rightarrow> Inr (tree, validators))))"

text \<open>
  Python compares two dicts by their items, whatever the order in which the keys were
  inserted. Two deposit entries are the same input when they are dicts with the same
  value under every key, or are equal outright.
\<close>

fun same_entry :: "json \<Rightarrow> json \<Rightarrow> bool" where
  "same_entry (JObj kvs) (JObj kvs') =
     list_all (\<lambda>k. map_of kvs k = map_of kvs' k) (map fst kvs @ map fst kvs')"
| "same_entry d d' = (d = d')"

section \<open>Notions used to state the properties\<close>

text \<open>
  These are not functions of the module. \<open>posts\<close> reads off a trace the endpoints that
  were posted to, in order. \<open>replica_attempts\<close> is the list of the outcomes of
  \<open>send_approval_request\<close> called on each endpoint of a list in turn, each call in the world
  the one before left; as long as every call fails with a network error or a timeout,
  these are the calls the replica loop makes. \<open>transient_failure\<close> says that an outcome
  is such a failure.
\<close>

definition posts :: "event list \<Rightarrow> string list" where
  "posts tr = concat (map (\<lambda>ev. case ev of EvPost ep \<Rightarrow> [ep] | _ \<Rightarrow> []) tr)"

fun replica_attempts ::
  "'oa env \<Rightarrow> string list \<Rightarrow> ApprovalRequest \<Rightarrow> world \<Rightarrow> (exn + OracleApproval) list" where
  "replica_attempts env [] payload w = []"
| "replica_attempts env (endpoint # rest) payload w =
     (case send_approval_request env endpoint payload w of
        (r, w') \<Rightarrow> r # replica_attempts env rest payload w')"

definition transient_failure :: "exn + OracleApproval \<Rightarrow> bool" where
  "transient_failure r = (case r of Inl e \<Rightarrow> is_aiohttp_error e | Inr _ \<Rightarrow> False)"

text \<open>
  Two devices for stating how outcomes are collected: an outcome with its exception
  replaced by a timeout, and the replica endpoints of the rows whose outcome is an
  exception.
\<close>

definition forget_error :: "exn + OracleApproval \<Rightarrow> exn + OracleApproval" where
  "forget_error r = (case r of Inl _ \<Rightarrow> Inl TimeoutError | Inr approval \<Rightarrow> Inr approval)"

definition failed_replicas ::
  "(string \<times> string list \<times> (exn + OracleApproval)) list \<Rightarrow> string list" where
  "failed_replicas rows = concat (map (\<lambda>(address, replicas, r). if isl r then replicas else []) rows)"

section \<open>Example inputs\<close>

text \<open>
  Concrete collaborators and inputs on which the theorems below are run: an oracle
  environment whose replica \<open>ok\<close> answers, whose replica \<open>slow\<close> times out and whose
  other replicas refuse the connection; a keystore directory; a deposit-data list.
\<close>

definition example_response :: json where
  "example_response =
     JObj [(''ipfs_hash'', JStr ''Qm''), (''signature'', JStr ''0x01''), (''deadline'', JInt 100)]"

definition example_env :: "nat env" where
  "example_env =
     \<lparr>session_post = (\<lambda>tr ep p.
        if ep = ''ok'' then Inr \<lparr>status = 200, json_body = Inr example_response\<rparr>
        else if ep = ''slow'' then Inl TimeoutError
        else Inl (ClientError ''refused'')),
      get_registry_root = (\<lambda>tr. Inr [0xAB]),
      get_latest_network_validator_public_keys = (\<lambda>tr. Inr [''0xkey'']),
      get_next_validator_index = (\<lambda>tr keys. Inr 5),
      to_bytes = (\<lambda>j. case j of JStr s \<Rightarrow> Inr [1] | _ \<Rightarrow> Inl TypeError),
      process_oracles_approvals = (\<lambda>approvals threshold.
        if length approvals < threshold
        then Inl (OtherException ''NotEnoughOracleApprovalsError'')
        else Inr (length approvals)),
      max_retries = 1\<rparr>"

definition example_request :: ApprovalRequest where
  "example_request = \<lparr>validator_index = 5, validators_root = ''0xab'', deadline = 100\<rparr>"

definition stale_root_request :: ApprovalRequest where
  "stale_root_request = \<lparr>validator_index = 5, validators_root = ''0x00'', deadline = 100\<rparr>"

definition stale_index_request :: ApprovalRequest where
  "stale_index_request = \<lparr>validator_index = 4, validators_root = ''0xab'', deadline = 100\<rparr>"

definition world0 :: world where
  "world0 = \<lparr>trace = [], draws = []\<rparr>"

definition example_approval :: OracleApproval where
  "example_approval = \<lparr>ipfs_hash = JStr ''Qm'', signature = [1], approval_deadline = JInt 100\<rparr>"


definition example_oracles :: Oracles where
  "example_oracles =
     \<lparr>addresses = [''0xA'', ''0xB''], endpoints = [[''down''], [''ok'']], validators_threshold = 1\<rparr>"

definition scenario_settings :: settings where
  "scenario_settings =
     \<lparr>keystores_dir = [''keystores''],
      keystores_password_dir = [''keystores''],
      keystores_password_file = [''keystores'', ''password.txt''],
      pool_size = 2\<rparr>"

definition scenario_fs :: filesystem where
  "scenario_fs = map_of
     [([''keystores''],
         Dir [''keystore1.json'', ''keystore1.txt'', ''keystore2.json'', ''password.txt'']),
      ([''keystores'', ''keystore1.json''], File ''{1}''),
      ([''keystores'', ''keystore1.txt''], File (''abc'' @ [CHR 0x0A])),
      ([''keystores'', ''keystore2.json''], File ''{2}''),
      ([''keystores'', ''password.txt''], File ''xyz'')]"

definition corrupted_fs :: filesystem where
  "corrupted_fs = scenario_fs([''keystores'', ''keystore2.json''] \<mapsto> File ''garbage'')"

definition example_keystore_lib :: "string keystore_lib" where
  "example_keystore_lib =
     \<lparr>from_file = (\<lambda>fs p.
        case fs p of
          Some (File content) \<Rightarrow>
            if prefix ''{'' content then Inr content else Inl (ValueError ''not a keystore'')
        | _ \<Rightarrow> Inl FileNotFoundError),
      decrypt = (\<lambda>keystore pw.
        if keystore = ''{1}'' \<and> pw = ''abc'' then Inr [1]
        else if keystore = ''{2}'' \<and> pw = ''xyz'' then Inr [2]
        else Inl (ValueError ''wrong password'')),
      SkToPk = (\<lambda>sk. Inr (0xAA # sk))\<rparr>"

definition never_closed :: "nat \<Rightarrow> nat \<Rightarrow> bool" where
  "never_closed j i = False"

definition example_merkle_lib :: "(bytes \<times> nat) list merkle_lib" where
  "example_merkle_lib =
     \<lparr>get_eth1_withdrawal_credentials = (\<lambda>vault. Inr [1]),
      encode_tx_validator = (\<lambda>credentials v. Inr (credentials @ [of_nat (deposit_data_index v)])),
      add_0x_prefix = (\<lambda>j.
        case j of
          JStr s \<Rightarrow> Inr (if prefix ''0x'' s \<or> prefix ''0X'' s then s else ''0x'' @ s)
        | _ \<Rightarrow> Inl TypeError),
      StandardMerkleTree_of = (\<lambda>leaves types.
        if leaves = [] then Inl (ValueError ''Expected non-zero number of leaves'')
        else Inr leaves),
      tree_root = (\<lambda>t. concat (map fst t)),
      tree_get_proof = (\<lambda>t leaf.
        if leaf \<in> set t then Inr (map fst (removeAll leaf t))
        else Inl (ValueError ''Leaf is not in tree''))\<rparr>"

definition example_deposit_data :: "json list" where
  "example_deposit_data =
     [JObj [(''pubkey'', JStr ''aa''), (''signature'', JStr ''0xbb'')],
      JObj [(''pubkey'', JStr ''0xcc''), (''signature'', JStr ''dd'')]]"

definition reordered_deposit_data :: "json list" where
  "reordered_deposit_data =
     [JObj [(''signature'', JStr ''0xbb''), (''pubkey'', JStr ''aa'')],
      JObj [(''pubkey'', JStr ''0xcc''), (''signature'', JStr ''dd'')]]"

section \<open>Lemmas about the replica loop\<close>

lemma posts_append: "posts (xs @ ys) = posts xs @ posts ys"
  by (simp add: posts_def)

lemma classify_failure_posts:
  "posts (trace (snd (classify_failure env payload e w))) = posts (trace w)"
  by (simp add: classify_failure_def log_event_def Let_def posts_def split: sum.splits)

lemma send_approval_request_posts:
  "posts (trace (snd (send_approval_request env endpoint payload w))) = posts (trace w) @ [endpoint]"
  by (simp add: send_approval_request_def Let_def classify_failure_posts split: sum.splits)
     (simp add: log_event_def posts_def)

lemma classify_failure_draws: "draws (snd (classify_failure env payload e w)) = draws w"
  by (simp add: classify_failure_def log_event_def Let_def split: sum.splits)

lemma mset_butlast_update:
  assumes "j < length pool"
  shows "add_mset (pool ! j) (mset (butlast (pool[j := last pool]))) = mset pool"
proof (cases "j = length pool - 1")
  case True
  with assms have "butlast (pool[j := last pool]) = butlast pool"
    by (simp add: butlast_list_update)
  moreover from assms have "pool \<noteq> []" by auto
  moreover from this True have "pool ! j = last pool"
    by (simp add: last_conv_nth)
  ultimately show ?thesis
    by (metis append_butlast_last_id mset.simps(2) mset_append add_mset_add_single union_mset_add_mset_right mset.simps(1))
next
  case False
  with assms have j: "j < length (butlast pool)" by simp
  from assms have ne: "pool \<noteq> []" by auto
  have "butlast (pool[j := last pool]) = (butlast pool)[j := last pool]"
    using False by (simp add: butlast_list_update)
  then have "add_mset (pool ! j) (mset (butlast (pool[j := last pool])))
      = add_mset (pool ! j) (mset ((butlast pool)[j := last pool]))" by simp
  also have "\<dots> = add_mset (pool ! j) (add_mset (last pool) (mset (butlast pool) - {#butlast pool ! j#}))"
    using j by (simp add: mset_update)
  also have "butlast pool ! j = pool ! j" using j by (simp add: nth_butlast)
  also have "add_mset (pool ! j) (add_mset (last pool) (mset (butlast pool) - {#pool ! j#}))
      = add_mset (last pool) (mset (butlast pool))"
    using j \<open>butlast pool ! j = pool ! j\<close>
    by (metis add_mset_commute insert_DiffM nth_mem_mset)
  also have "\<dots> = mset (butlast pool @ [last pool])" by simp
  also have "\<dots> = mset pool" using ne by simp
  finally show ?thesis .
qed

lemma sample_loop_mset:
  "length pool = m \<Longrightarrow> mset (fst (sample_loop m ds pool)) = mset pool"
proof (induction m arbitrary: ds pool)
  case 0
  then show ?case by simp
next
  case (Suc m)
  define j where "j = (case ds of [] \<Rightarrow> 0 | d # _ \<Rightarrow> d mod Suc m)"
  have j: "j < length pool" using Suc.prems by (simp add: j_def split: list.splits)
  have len: "length (butlast (pool[j := last pool])) = m" using Suc.prems by simp
  have "mset (fst (sample_loop (Suc m) ds pool))
      = add_mset (pool ! j) (mset (fst (sample_loop m (tl ds) (butlast (pool[j := last pool])))))"
    by (simp add: j_def Let_def split: prod.splits)
  also have "\<dots> = add_mset (pool ! j) (mset (butlast (pool[j := last pool])))"
    using Suc.IH[OF len] by simp
  also have "\<dots> = mset pool" by (rule mset_butlast_update[OF j])
  finally show ?case .
qed

lemma random_sample_mset: "mset (fst (random_sample ds xs)) = mset xs"
  by (simp add: random_sample_def sample_loop_mset)

lemma replica_attempts_length [simp]: "length (replica_attempts env eps p w) = length eps"
  by (induction eps arbitrary: w) (auto split: prod.splits)



lemma try_replicas_all_fail:
  "eps \<noteq> [] \<Longrightarrow> (\<forall>r\<in>set (replica_attempts env eps p w). transient_failure r) \<Longrightarrow>
   fst (try_replicas env eps p le w) = last (replica_attempts env eps p w) \<and>
   posts (trace (snd (try_replicas env eps p le w))) = posts (trace w) @ eps"
proof (induction eps arbitrary: w le)
  case Nil
  then show ?case by simp
next
  case (Cons ep rest)
  obtain r w1 where s: "send_approval_request env ep p w = (r, w1)" by (cases "send_approval_request env ep p w")
  have p1: "posts (trace w1) = posts (trace w) @ [ep]"
    using send_approval_request_posts[of env ep p w] s by simp
  from Cons.prems(2) s have "transient_failure r" by simp
  then obtain e where e: "r = Inl e" "is_aiohttp_error e"
    by (auto simp: transient_failure_def split: sum.splits)
  show ?case
  proof (cases rest)
    case Nil
    then show ?thesis using s e p1 by simp
  next
    case (Cons ep' rest')
    then have ne: "rest \<noteq> []" by simp
    have all: "\<forall>r\<in>set (replica_attempts env rest p w1). transient_failure r"
      using Cons.prems(2) s by simp
    have nel: "replica_attempts env rest p w1 \<noteq> []"
      using ne by (metis length_0_conv replica_attempts_length)
    from Cons.IH[OF ne all, of "Some e"] show ?thesis
      using s e p1 nel by simp
  qed
qed

lemmas example_defs = example_env_def example_request_def stale_root_request_def
  stale_index_request_def world0_def example_response_def example_approval_def
  to_hex_def hex_digit_def

lemmas run_defs = send_approval_request_def post_json_def classify_failure_def
  make_approval_def log_event_def Let_def

text \<open>
  The external calls one call of \<open>send_approval_request\<close> makes, in order: the post, and
  in the handler the registry root, then the latest public keys, then the next index.
\<close>

lemma classify_failure_trace:
  "\<exists>suffix. trace (snd (classify_failure env payload e w)) = trace w @ suffix \<and>
     suffix \<in> {[EvGetRegistryRoot],
               [EvGetRegistryRoot, EvGetLatestPublicKeys],
               [EvGetRegistryRoot, EvGetLatestPublicKeys, EvGetNextValidatorIndex]}"
  by (simp add: classify_failure_def log_event_def Let_def split: sum.splits)

lemma send_approval_request_trace:
  "\<exists>suffix. trace (snd (send_approval_request env endpoint payload w)) =
       trace w @ EvPost endpoint # suffix \<and>
     suffix \<in> {[],
               [EvGetRegistryRoot],
               [EvGetRegistryRoot, EvGetLatestPublicKeys],
               [EvGetRegistryRoot, EvGetLatestPublicKeys, EvGetNextValidatorIndex]}"
proof (cases "post_json env (trace w) endpoint payload")
  case (Inr data)
  then show ?thesis by (simp add: send_approval_request_def log_event_def Let_def)
next
  case (Inl e)
  show ?thesis
  proof (cases "is_aiohttp_error e")
    case False
    with Inl show ?thesis by (simp add: send_approval_request_def log_event_def Let_def)
  next
    case True
    obtain suffix where s:
      "trace (snd (classify_failure env payload e (log_event (EvPost endpoint) w))) =
         trace (log_event (EvPost endpoint) w) @ suffix"
      "suffix \<in> {[EvGetRegistryRoot],
               [EvGetRegistryRoot, EvGetLatestPublicKeys],
               [EvGetRegistryRoot, EvGetLatestPublicKeys, EvGetNextValidatorIndex]}"
      using classify_failure_trace[of env payload e "log_event (EvPost endpoint) w"] by blast
    have "trace (snd (send_approval_request env endpoint payload w)) =
        trace w @ EvPost endpoint # suffix"
      using Inl True s(1) by (simp add: send_approval_request_def Let_def log_event_def)
    with s(2) show ?thesis by blast
  qed
qed

text \<open>The retry decorator hands on every outcome that is not a network error or a timeout.\<close>

lemma retry_aiohttp_errors_passes:
  "f w = (Inl e, w') \<Longrightarrow> \<not> is_aiohttp_error e \<Longrightarrow> retry_aiohttp_errors n f w = (Inl e, w')"
  by (cases n) simp_all

lemma retry_aiohttp_errors_success:
  "f w = (Inr v, w') \<Longrightarrow> retry_aiohttp_errors n f w = (Inr v, w')"
  by (cases n) simp_all

lemma stale_error_not_retried:
  assumes "send_approval_request_to_replicas_body env replicas payload w = (Inl e, w')"
      and "e = RegistryRootChangedError \<or> e = ValidatorIndexChangedError"
  shows "send_approval_request_to_replicas env replicas payload w = (Inl e, w')"
  unfolding send_approval_request_to_replicas_def
  using assms by (intro retry_aiohttp_errors_passes) auto







section \<open>Lemmas about the collection of outcomes\<close>

lemma collect_results_untouched:
  "address \<notin> fst ` set rows \<Longrightarrow>
   map_of (fst (collect_results rows approvals failed)) address = map_of approvals address"
proof (induction rows approvals failed rule: collect_results.induct)
  case (3 address' replicas approval rest approvals failed)
  then show ?case by (simp add: update_conv')
qed simp_all

lemma collect_results_success:
  "distinct (map fst rows) \<Longrightarrow> (address, replicas, Inr approval) \<in> set rows \<Longrightarrow>
   map_of (fst (collect_results rows approvals failed)) address = Some approval"
proof (induction rows approvals failed rule: collect_results.induct)
  case (1 approvals failed)
  then show ?case by simp
next
  case (2 address' replicas' e rest approvals failed)
  then show ?case by auto
next
  case (3 address' replicas' approval' rest approvals failed)
  show ?case
  proof (cases "(address, replicas, Inr approval) \<in> set rest")
    case True
    with 3 show ?thesis by simp
  next
    case False
    with 3 have eq: "address' = address" "approval' = approval" by auto
    from 3(2) eq have "address \<notin> fst ` set rest" by simp
    from collect_results_untouched[OF this] show ?thesis
      using eq by (simp add: update_conv')
  qed
qed

lemma collect_results_failure:
  "distinct (map fst rows) \<Longrightarrow> (address, replicas, Inl e) \<in> set rows \<Longrightarrow>
   map_of (fst (collect_results rows approvals failed)) address = map_of approvals address"
proof (induction rows approvals failed rule: collect_results.induct)
  case (1 approvals failed)
  then show ?case by simp
next
  case (2 address' replicas' e' rest approvals failed)
  show ?case
  proof (cases "(address, replicas, Inl e) \<in> set rest")
    case True
    with 2 show ?thesis by simp
  next
    case False
    with 2 have eq: "address' = address" by auto
    from 2(2) eq have "address \<notin> fst ` set rest" by simp
    from collect_results_untouched[OF this] show ?thesis by simp
  qed
next
  case (3 address' replicas' approval' rest approvals failed)
  then have ne: "address' \<noteq> address" by (auto simp: image_iff)
  from 3 have "(address, replicas, Inl e) \<in> set rest" by auto
  with 3 ne show ?case by (simp add: update_conv')
qed

lemma collect_results_failed:
  "snd (collect_results rows approvals failed) = failed @ failed_replicas rows"
  by (induction rows approvals failed rule: collect_results.induct)
     (simp_all add: failed_replicas_def)

lemma collect_results_forget:
  "collect_results (map (\<lambda>(address, replicas, r). (address, replicas, forget_error r)) rows)
     approvals failed = collect_results rows approvals failed"
  by (induction rows approvals failed rule: collect_results.induct)
     (simp_all add: forget_error_def)

lemma aggregate_forget:
  "aggregate addrs eps (map forget_error results) = aggregate addrs eps results"
proof -
  have "zip addrs (zip eps (map forget_error results)) =
      map (\<lambda>(address, replicas, r). (address, replicas, forget_error r)) (zip addrs (zip eps results))"
    by (simp add: zip_map2 case_prod_unfold)
  then show ?thesis by (simp add: aggregate_def collect_results_forget)
qed

lemma row_in_zip:
  assumes "i < length addrs" "i < length eps" "i < length results"
  shows "(addrs ! i, eps ! i, results ! i) \<in> set (zip addrs (zip eps results))"
proof -
  have "i < length (zip addrs (zip eps results))" using assms by simp
  then have "zip addrs (zip eps results) ! i \<in> set (zip addrs (zip eps results))"
    by (rule nth_mem)
  then show ?thesis using assms by simp
qed

lemma distinct_rows: "distinct addrs \<Longrightarrow> distinct (map fst (zip addrs ys))"
  by (simp add: map_fst_zip_take )

lemma failed_replicas_member:
  "(address, replicas, Inl e) \<in> set rows \<Longrightarrow> set replicas \<subseteq> set (failed_replicas rows)"
  by (induction rows) (auto simp: failed_replicas_def)

section \<open>Lemmas about the keystore loader\<close>

lemma list_keystore_files_loop_inv:
  "list_keystore_files_loop st fs names res = Inr out \<Longrightarrow>
   \<exists>new. out = res @ new \<and> map name new = filter (is_keystore_name st fs) names \<and>
     (\<forall>kf\<in>set new. load_keystores_password fs (password_file_for st fs (name kf)) = Inr (password kf))"
proof (induction names arbitrary: res)
  case Nil
  then show ?case by simp
next
  case (Cons f rest)
  show ?case
  proof (cases "is_keystore_name st fs f")
    case False
    with Cons show ?thesis by simp
  next
    case True
    with Cons.prems obtain pw where
      pw: "load_keystores_password fs (password_file_for st fs f) = Inr pw"
      and rec: "list_keystore_files_loop st fs rest (res @ [\<lparr>name = f, password = pw\<rparr>]) = Inr out"
      by (auto split: sum.splits)
    from Cons.IH[OF rec] obtain new where new: "out = (res @ [\<lparr>name = f, password = pw\<rparr>]) @ new"
      "map name new = filter (is_keystore_name st fs) rest"
      "\<forall>kf\<in>set new. load_keystores_password fs (password_file_for st fs (name kf)) = Inr (password kf)"
      by blast
    show ?thesis
      by (rule exI[of _ "\<lparr>name = f, password = pw\<rparr> # new"]) (use new pw True in simp)
  qed
qed

lemmas fs_defs = scenario_settings_def scenario_fs_def corrupted_fs_def
  list_keystore_files_def listdir_def is_keystore_name_def isfile_def path_join_def
  password_file_for_def str_replace_def load_keystores_password_def strip_def is_space_def
  suffix_to_prefix Let_def

lemma collect_keystores_fails:
  "\<exists>r\<in>set results. isl r \<Longrightarrow> isl (collect_keystores results keystores)"
  by (induction results keystores rule: collect_keystores.induct) auto

lemma collect_keystores_returns:
  "collect_keystores results keystores = Inr out \<Longrightarrow>
   (\<forall>r\<in>set results. \<not> isl r) \<and>
   dom (map_of out) = dom (map_of keystores) \<union> {pub. \<exists>priv. Inr (pub, priv) \<in> set results}"
proof (induction results keystores rule: collect_keystores.induct)
  case (2 pub_key priv_key rest keystores)
  then have "(\<forall>r\<in>set rest. \<not> isl r) \<and>
      dom (map_of out) = dom (map_of (AList.update pub_key priv_key keystores)) \<union>
        {pub. \<exists>priv. Inr (pub, priv) \<in> set rest}"
    by simp
  then show ?case by (auto simp: update_conv')
qed simp_all

lemma apply_async_all_cases:
  "apply_async_all sched outcomes = Inl (ValueError ''Pool not running'') \<or>
   apply_async_all sched outcomes = Inr outcomes"
  by (simp add: apply_async_all_def)

lemmas keystore_defs = load_keystores_def apply_async_all_def pool_closed_def
  process_keystore_file_def example_keystore_lib_def never_closed_def quoted_def
  to_hex_def hex_digit_def

section \<open>Lemmas about the validators tree\<close>

lemma same_entry_subscript: "same_entry d d' \<Longrightarrow> subscript d k = subscript d' k"
proof (induction d d' rule: same_entry.induct)
  case (1 kvs kvs')
  have "map_of kvs k = map_of kvs' k"
  proof (cases "k \<in> set (map fst kvs @ map fst kvs')")
    case True
    with 1 show ?thesis by (simp add: list_all_iff del: set_append)
  next
    case False
    then have "map_of kvs k = None" "map_of kvs' k = None"
      by (simp_all add: map_of_eq_None_iff)
    then show ?thesis by simp
  qed
  then show ?case by simp
qed simp_all

lemma build_leaves_same_entries:
  "list_all2 same_entry ds ds' \<Longrightarrow>
   build_leaves lib credentials ds' i leaves validators =
   build_leaves lib credentials ds i leaves validators"
proof (induction ds ds' arbitrary: i leaves validators rule: list_all2_induct)
  case Nil
  then show ?case by simp
next
  case (Cons d ds d' ds')
  have p: "subscript d' ''pubkey'' = subscript d ''pubkey''"
    and s: "subscript d' ''signature'' = subscript d ''signature''"
    using same_entry_subscript[OF Cons.hyps(1)] by simp_all
  show ?case
    by (simp add: p s Cons.IH Let_def split: sum.splits)
qed

lemma build_leaves_inv:
  "build_leaves lib credentials ds i0 leaves validators = Inr (leaves', validators') \<Longrightarrow>
   \<exists>new. validators' = validators @ new \<and> length new = length ds \<and>
     (\<forall>k<length ds.
        deposit_data_index (new ! k) = i0 + k \<and>
        (\<exists>pk sg. subscript (ds ! k) ''pubkey'' = Inr pk \<and>
                 add_0x_prefix lib pk = Inr (public_key (new ! k)) \<and>
                 subscript (ds ! k) ''signature'' = Inr sg \<and>
                 add_0x_prefix lib sg = Inr (deposit_signature (new ! k))))"
proof (induction ds arbitrary: i0 leaves validators)
  case Nil
  then show ?case by simp
next
  case (Cons d ds)
  from Cons.prems obtain pk pk0x sg sg0x leaf where
    a: "subscript d ''pubkey'' = Inr pk" "add_0x_prefix lib pk = Inr pk0x"
       "subscript d ''signature'' = Inr sg" "add_0x_prefix lib sg = Inr sg0x"
    and rec: "build_leaves lib credentials ds (Suc i0) (leaves @ [(leaf, i0)])
        (validators @ [\<lparr>deposit_data_index = i0, public_key = pk0x, deposit_signature = sg0x\<rparr>])
        = Inr (leaves', validators')"
    by (auto simp: Let_def split: sum.splits)
  let ?v = "\<lparr>deposit_data_index = i0, public_key = pk0x, deposit_signature = sg0x\<rparr>"
  from Cons.IH[OF rec] obtain new where new:
    "validators' = (validators @ [?v]) @ new" "length new = length ds"
    "\<forall>k<length ds.
        deposit_data_index (new ! k) = Suc i0 + k \<and>
        (\<exists>pk sg. subscript (ds ! k) ''pubkey'' = Inr pk \<and>
                 add_0x_prefix lib pk = Inr (public_key (new ! k)) \<and>
                 subscript (ds ! k) ''signature'' = Inr sg \<and>
                 add_0x_prefix lib sg = Inr (deposit_signature (new ! k)))"
    by blast
  have "\<forall>k<length (d # ds).
        deposit_data_index ((?v # new) ! k) = i0 + k \<and>
        (\<exists>pk sg. subscript ((d # ds) ! k) ''pubkey'' = Inr pk \<and>
                 add_0x_prefix lib pk = Inr (public_key ((?v # new) ! k)) \<and>
                 subscript ((d # ds) ! k) ''signature'' = Inr sg \<and>
                 add_0x_prefix lib sg = Inr (deposit_signature ((?v # new) ! k)))"
  proof (intro allI impI)
    fix k assume k: "k < length (d # ds)"
    show "deposit_data_index ((?v # new) ! k) = i0 + k \<and>
        (\<exists>pk sg. subscript ((d # ds) ! k) ''pubkey'' = Inr pk \<and>
                 add_0x_prefix lib pk = Inr (public_key ((?v # new) ! k)) \<and>
                 subscript ((d # ds) ! k) ''signature'' = Inr sg \<and>
                 add_0x_prefix lib sg = Inr (deposit_signature ((?v # new) ! k)))"
    proof (cases k)
      case 0
      with a show ?thesis by simp
    next
      case (Suc k')
      with k have "k' < length ds" by simp
      with new(3) Suc show ?thesis by simp
    qed
  qed
  then show ?case
    by (intro exI[of _ "?v # new"]) (use new in simp)
qed

lemmas merkle_defs = generate_validators_tree_def example_merkle_lib_def
  example_deposit_data_def reordered_deposit_data_def Let_def

section \<open>The replica loop: stale rounds, exhaustion, first success\<close>

text \<open>
  Claim C1. Whenever the loop stands at a replica whose call fails with a network error
  or a timeout, and the registry root read in the handler differs from the request's
  \<open>validators_root\<close>, the call raises \<open>RegistryRootChangedError\<close> and so does the loop,
  whatever replicas remain and whatever error was recorded before. The final trace ends
  with the read of the registry root: no remaining replica is posted to, and the
  validator index is not derived. The retry decorator hands this error on without
  another pass (lemma \<open>stale_error_not_retried\<close>).
\<close>

theorem stale_registry_root_stops_replicas:
  assumes "post_json env (trace w) endpoint payload = Inl e"
      and "is_aiohttp_error e"
      and "get_registry_root env (trace w @ [EvPost endpoint]) = Inr registry_root"
      and "to_hex registry_root \<noteq> validators_root payload"
  shows "send_approval_request env endpoint payload w =
           (Inl RegistryRootChangedError, w\<lparr>trace := trace w @ [EvPost endpoint, EvGetRegistryRoot]\<rparr>)
       \<and> try_replicas env (endpoint # rest) payload last_error w =
           (Inl RegistryRootChangedError, w\<lparr>trace := trace w @ [EvPost endpoint, EvGetRegistryRoot]\<rparr>)"
proof -
  have s: "send_approval_request env endpoint payload w =
      (Inl RegistryRootChangedError, w\<lparr>trace := trace w @ [EvPost endpoint, EvGetRegistryRoot]\<rparr>)"
    using assms by (simp add: run_defs)
  then show ?thesis by simp
qed

theorem stale_registry_root_stops_replicas_witness:
  "try_replicas example_env [''down'', ''ok''] stale_root_request None world0 =
     (Inl RegistryRootChangedError, \<lparr>trace = [EvPost ''down'', EvGetRegistryRoot], draws = []\<rparr>)
   \<and> posts [EvPost ''down'', EvGetRegistryRoot] = [''down'']"
  using stale_registry_root_stops_replicas
    [of example_env world0 "''down''" stale_root_request "ClientError ''refused''" "[0xAB]" "[''ok'']" None]
  by (simp add: example_defs post_json_def posts_def)

text \<open>
  Claim C2. Under the same failure, when the registry root read in the handler equals the
  request's \<open>validators_root\<close> and the next validator index derived from the latest public
  keys differs from the request's \<open>validator_index\<close>, the call and the loop raise
  \<open>ValidatorIndexChangedError\<close>, and no remaining replica is posted to. The trace shows
  the order of the checks: the registry root is read before the public keys and the index.
  The last part holds for every call of \<open>send_approval_request\<close>, with no condition: the
  external calls after the post are a prefix of registry root, public keys, next index, so
  the index is never derived before the registry root has been read. The retry decorator
  hands the stale-index error on as well.
\<close>

theorem stale_validator_index_stops_replicas:
  assumes "post_json env (trace w) endpoint payload = Inl e"
      and "is_aiohttp_error e"
      and "get_registry_root env (trace w @ [EvPost endpoint]) = Inr registry_root"
      and "to_hex registry_root = validators_root payload"
      and "get_latest_network_validator_public_keys env
             (trace w @ [EvPost endpoint, EvGetRegistryRoot]) = Inr latest_public_keys"
      and "get_next_validator_index env
             (trace w @ [EvPost endpoint, EvGetRegistryRoot, EvGetLatestPublicKeys])
             latest_public_keys = Inr next_index"
      and "next_index \<noteq> validator_index payload"
  shows "send_approval_request env endpoint payload w =
           (Inl ValidatorIndexChangedError,
            w\<lparr>trace := trace w @ [EvPost endpoint, EvGetRegistryRoot, EvGetLatestPublicKeys,
                                   EvGetNextValidatorIndex]\<rparr>)
       \<and> try_replicas env (endpoint # rest) payload last_error w =
           (Inl ValidatorIndexChangedError,
            w\<lparr>trace := trace w @ [EvPost endpoint, EvGetRegistryRoot, EvGetLatestPublicKeys,
                                   EvGetNextValidatorIndex]\<rparr>)
       \<and> (\<exists>suffix.
            trace (snd (send_approval_request env' endpoint' payload' w')) =
              trace w' @ EvPost endpoint' # suffix \<and>
            suffix \<in> {[],
                      [EvGetRegistryRoot],
                      [EvGetRegistryRoot, EvGetLatestPublicKeys],
                      [EvGetRegistryRoot, EvGetLatestPublicKeys, EvGetNextValidatorIndex]})"
proof -
  have s: "send_approval_request env endpoint payload w =
      (Inl ValidatorIndexChangedError,
       w\<lparr>trace := trace w @ [EvPost endpoint, EvGetRegistryRoot, EvGetLatestPublicKeys,
                              EvGetNextValidatorIndex]\<rparr>)"
    using assms by (simp add: run_defs)
  then have "try_replicas env (endpoint # rest) payload last_error w =
      (Inl ValidatorIndexChangedError,
       w\<lparr>trace := trace w @ [EvPost endpoint, EvGetRegistryRoot, EvGetLatestPublicKeys,
                              EvGetNextValidatorIndex]\<rparr>)"
    by simp
  with s send_approval_request_trace[of env' endpoint' payload' w'] show ?thesis by blast
qed

theorem stale_validator_index_stops_replicas_witness:
  "try_replicas example_env [''down'', ''ok''] stale_index_request None world0 =
     (Inl ValidatorIndexChangedError,
      \<lparr>trace = [EvPost ''down'', EvGetRegistryRoot, EvGetLatestPublicKeys, EvGetNextValidatorIndex],
       draws = []\<rparr>)"
  using stale_validator_index_stops_replicas
    [of example_env world0 "''down''" stale_index_request "ClientError ''refused''" "[0xAB]"
        "[''0xkey'']" 5 "[''ok'']" None example_env "''ok''" example_request world0]
  by (simp add: example_defs post_json_def)

text \<open>
  Claim C5. For a non-empty replica list, when every call of one pass of
  \<open>send_approval_request_to_replicas\<close> over the shuffled replicas fails with a network
  error or a timeout, the pass raises the outcome of the
  last call, and every replica was posted to, in the shuffled order. In the witness the
  first call fails with a \<open>ClientError\<close> and the last with a \<open>TimeoutError\<close>; the
  \<open>TimeoutError\<close> is raised.
\<close>

theorem all_replicas_fail_raises_last_error:
  assumes "replicas \<noteq> []"
      and "random_sample (draws w) replicas = (shuffled, ds)"
      and "\<forall>r\<in>set (replica_attempts env shuffled payload (w\<lparr>draws := ds\<rparr>)). transient_failure r"
  shows "fst (send_approval_request_to_replicas_body env replicas payload w) =
           last (replica_attempts env shuffled payload (w\<lparr>draws := ds\<rparr>))
       \<and> posts (trace (snd (send_approval_request_to_replicas_body env replicas payload w))) =
           posts (trace w) @ shuffled"
proof -
  have "mset shuffled = mset replicas"
    using random_sample_mset[of "draws w" replicas] assms(2) by simp
  with assms(1) have ne: "shuffled \<noteq> []" by auto
  from try_replicas_all_fail[OF ne assms(3), of None] show ?thesis
    using assms(2) by (simp add: send_approval_request_to_replicas_body_def)
qed

theorem all_replicas_fail_raises_last_error_witness:
  "random_sample (draws world0) [''down'', ''slow''] = ([''down'', ''slow''], [])
   \<and> replica_attempts example_env [''down'', ''slow''] example_request world0 =
        [Inl (ClientError ''refused''), Inl TimeoutError]
   \<and> fst (send_approval_request_to_replicas_body example_env [''down'', ''slow''] example_request world0) =
        Inl TimeoutError"
proof -
  have a: "random_sample (draws world0) [''down'', ''slow''] = ([''down'', ''slow''], [])"
    by (simp add: random_sample_def world0_def)
  have w: "world0\<lparr>draws := []\<rparr> = world0" by (simp add: world0_def)
  have b: "replica_attempts example_env [''down'', ''slow''] example_request world0 =
        [Inl (ClientError ''refused''), Inl TimeoutError]"
    by (simp add: example_defs run_defs)
  have c: "\<forall>r\<in>set (replica_attempts example_env [''down'', ''slow''] example_request (world0\<lparr>draws := []\<rparr>)).
      transient_failure r"
    unfolding w b by (simp add: transient_failure_def)
  from all_replicas_fail_raises_last_error[OF _ a c] a b w show ?thesis by simp
qed




section \<open>Collecting the outcomes of the oracles\<close>

text \<open>
  Claim C4. For every vector of outcomes and pairwise distinct oracle addresses: an
  oracle whose task returned an approval has that approval under its address in the
  \<open>approvals\<close> dictionary, whatever the outcomes of the other oracles are; an oracle
  whose task ended in an exception has no entry and all its replica endpoints are in
  \<open>failed_endpoints\<close>; and \<open>failed_endpoints\<close> holds the replicas of the failed
  oracles and nothing else.
\<close>

theorem failed_oracle_does_not_hide_approval:
  assumes "distinct addrs"
      and "i < length addrs" and "i < length eps" and "i < length results"
  shows "(\<forall>approval. results ! i = Inr approval \<longrightarrow>
            map_of (fst (aggregate addrs eps results)) (addrs ! i) = Some approval)
       \<and> (\<forall>e. results ! i = Inl e \<longrightarrow>
            map_of (fst (aggregate addrs eps results)) (addrs ! i) = None \<and>
            set (eps ! i) \<subseteq> set (snd (aggregate addrs eps results)))
       \<and> snd (aggregate addrs eps results) = failed_replicas (zip addrs (zip eps results))"
proof -
  let ?rows = "zip addrs (zip eps results)"
  have d: "distinct (map fst ?rows)" using assms(1) by (rule distinct_rows)
  have m: "(addrs ! i, eps ! i, results ! i) \<in> set ?rows"
    using assms(2-4) by (rule row_in_zip)
  have f: "snd (aggregate addrs eps results) = failed_replicas ?rows"
    by (simp add: aggregate_def collect_results_failed)
  have a: "\<forall>approval. results ! i = Inr approval \<longrightarrow>
      map_of (fst (aggregate addrs eps results)) (addrs ! i) = Some approval"
    using collect_results_success[OF d, of "addrs ! i" "eps ! i" _ "[]" "[]"] m
    by (auto simp: aggregate_def)
  have b: "\<forall>e. results ! i = Inl e \<longrightarrow>
      map_of (fst (aggregate addrs eps results)) (addrs ! i) = None \<and>
      set (eps ! i) \<subseteq> set (snd (aggregate addrs eps results))"
  proof (intro allI impI)
    fix e assume e: "results ! i = Inl e"
    with m have m': "(addrs ! i, eps ! i, Inl e) \<in> set ?rows" by simp
    from collect_results_failure[OF d m', of "[]" "[]"] failed_replicas_member[OF m'] f
    show "map_of (fst (aggregate addrs eps results)) (addrs ! i) = None \<and>
      set (eps ! i) \<subseteq> set (snd (aggregate addrs eps results))"
      by (simp add: aggregate_def)
  qed
  from a b f show ?thesis by blast
qed

theorem failed_oracle_does_not_hide_approval_witness:
  "aggregate [''0xA'', ''0xB'', ''0xC'']
      [[''a1'', ''a2''], [''b1''], [''c1'']]
      [Inl RegistryRootChangedError, Inr example_approval, Inl TimeoutError]
     = ([(''0xB'', example_approval)], [''a1'', ''a2'', ''c1''])
   \<and> map_of (fst (aggregate [''0xA'', ''0xB'', ''0xC'']
        [[''a1'', ''a2''], [''b1''], [''c1'']]
        [Inl RegistryRootChangedError, Inr example_approval, Inl TimeoutError])) ''0xB''
      = Some example_approval
   \<and> map_of (fst (aggregate [''0xA'', ''0xB'', ''0xC'']
        [[''a1'', ''a2''], [''b1''], [''c1'']]
        [Inl RegistryRootChangedError, Inr example_approval, Inl TimeoutError])) ''0xA''
      = None
   \<and> set [''a1'', ''a2''] \<subseteq> set (snd (aggregate [''0xA'', ''0xB'', ''0xC'']
        [[''a1'', ''a2''], [''b1''], [''c1'']]
        [Inl RegistryRootChangedError, Inr example_approval, Inl TimeoutError]))"
proof -
  let ?addrs = "[''0xA'', ''0xB'', ''0xC'']"
  let ?eps = "[[''a1'', ''a2''], [''b1''], [''c1'']]"
  let ?results = "[Inl RegistryRootChangedError, Inr example_approval, Inl TimeoutError]"
  have d: "distinct ?addrs" by simp
  have l1: "1 < length ?addrs" "1 < length ?eps" "1 < length ?results" by simp_all
  have l0: "0 < length ?addrs" "0 < length ?eps" "0 < length ?results" by simp_all
  have r1: "?results ! 1 = Inr example_approval" by simp
  have r0: "?results ! 0 = Inl RegistryRootChangedError" by simp
  from failed_oracle_does_not_hide_approval[OF d l1] r1
  have "map_of (fst (aggregate ?addrs ?eps ?results)) (?addrs ! 1) = Some example_approval"
    by blast
  then have ok: "map_of (fst (aggregate ?addrs ?eps ?results)) ''0xB'' = Some example_approval"
    by simp
  from failed_oracle_does_not_hide_approval[OF d l0] r0
  have "map_of (fst (aggregate ?addrs ?eps ?results)) (?addrs ! 0) = None \<and>
      set (?eps ! 0) \<subseteq> set (snd (aggregate ?addrs ?eps ?results))"
    by blast
  then have bad: "map_of (fst (aggregate ?addrs ?eps ?results)) ''0xA'' = None \<and>
      set [''a1'', ''a2''] \<subseteq> set (snd (aggregate ?addrs ?eps ?results))"
    by simp
  have ev: "aggregate ?addrs ?eps ?results =
      ([(''0xB'', example_approval)], [''a1'', ''a2'', ''c1''])"
    by (simp add: aggregate_def)
  from ok bad ev show ?thesis by blast
qed

text \<open>
  Claim C3, as the code has it. \<open>send_approval_requests\<close> does not raise the stale-round
  error of an oracle's task. The outcomes are gathered with \<open>return_exceptions=True\<close>,
  and what the caller receives is what \<open>process_oracles_approvals\<close> returns or raises
  for the approvals collected; that value is the same when every exception among the
  outcomes, stale-round or not, is replaced by a timeout.
\<close>

theorem stale_round_error_is_collected:
  assumes "gather env (map snd (zip (addresses oracles) (endpoints oracles))) request w = (results, w')"
  shows "send_approval_requests env oracles request w =
           (process_oracles_approvals env
              (fst (aggregate (addresses oracles) (endpoints oracles) (map forget_error results)))
              (validators_threshold oracles), w')"
  using assms by (simp add: send_approval_requests_def aggregate_forget split: prod.splits)

theorem stale_round_error_is_collected_witness:
  "gather example_env [[''down''], [''ok'']] stale_root_request world0 =
     ([Inl RegistryRootChangedError, Inr example_approval],
      \<lparr>trace = [EvPost ''down'', EvGetRegistryRoot, EvPost ''ok''], draws = []\<rparr>)
   \<and> send_approval_requests example_env example_oracles stale_root_request world0 =
     (Inr 1, \<lparr>trace = [EvPost ''down'', EvGetRegistryRoot, EvPost ''ok''], draws = []\<rparr>)"
proof -
  have g: "gather example_env (map snd (zip (addresses example_oracles) (endpoints example_oracles)))
      stale_root_request world0 =
     ([Inl RegistryRootChangedError, Inr example_approval],
      \<lparr>trace = [EvPost ''down'', EvGetRegistryRoot, EvPost ''ok''], draws = []\<rparr>)"
    by (simp add: example_oracles_def send_approval_request_to_replicas_def
        send_approval_request_to_replicas_body_def random_sample_def example_defs run_defs
        )
  have z: "map snd (zip (addresses example_oracles) (endpoints example_oracles)) = [[''down''], [''ok'']]"
    by (simp add: example_oracles_def)
  from stale_round_error_is_collected[OF g] g z show ?thesis
    by (simp add: example_oracles_def aggregate_def forget_error_def example_env_def)
qed

text \<open>
  Claim C3 as stated fails: the task of oracle \<open>0xA\<close> ends in
  \<open>RegistryRootChangedError\<close>, oracle \<open>0xB\<close> approves, the threshold is one, and the batch
  returns the combined approval instead of raising the stale-round error.
\<close>

theorem stale_round_error_not_raised_counterexample:
  "fst (gather example_env [[''down''], [''ok'']] stale_root_request world0) ! 0
     = Inl RegistryRootChangedError
   \<and> fst (send_approval_requests example_env example_oracles stale_root_request world0) = Inr 1
   \<and> fst (send_approval_requests example_env example_oracles stale_root_request world0)
     \<noteq> Inl RegistryRootChangedError"
  by (simp add: send_approval_requests_def aggregate_def example_oracles_def
      send_approval_request_to_replicas_def
      send_approval_request_to_replicas_body_def random_sample_def example_defs run_defs
      )

section \<open>Keystore files and passwords\<close>

text \<open>
  Claim C10. The files \<open>list_keystore_files\<close> returns are the names of the directory
  listing that pass the keystore test, in listing order. For each of them the password is
  the stripped text of the sidecar file, the keystore name with \<open>.json\<close> replaced by
  \<open>.txt\<close> in the password directory, when that file exists, and the stripped text of the
  default password file otherwise. The witness is the scenario of the specification:
  \<open>keystore1.json\<close> with the sidecar \<open>keystore1.txt\<close> holding \<open>abc\<close>, \<open>keystore2.json\<close>
  without a sidecar, and a default file holding \<open>xyz\<close>.
\<close>

theorem password_from_sidecar_or_default:
  assumes "listdir fs (keystores_dir st) = Inr names"
      and "list_keystore_files st fs = Inr files"
  shows "map name files = filter (is_keystore_name st fs) names
       \<and> (\<forall>kf\<in>set files.
            (let sidecar = path_join (keystores_password_dir st)
                             (str_replace ''.json'' ''.txt'' (name kf))
             in if isfile fs sidecar
                then \<exists>content. fs sidecar = Some (File content) \<and> password kf = strip content
                else \<exists>content. fs (keystores_password_file st) = Some (File content) \<and>
                       password kf = strip content))"
proof -
  from assms have "list_keystore_files_loop st fs names [] = Inr files"
    by (simp add: list_keystore_files_def)
  from list_keystore_files_loop_inv[OF this] have
    n: "map name files = filter (is_keystore_name st fs) names" and
    p: "\<forall>kf\<in>set files. load_keystores_password fs (password_file_for st fs (name kf)) = Inr (password kf)"
    by auto
  have "\<forall>kf\<in>set files.
      (let sidecar = path_join (keystores_password_dir st) (str_replace ''.json'' ''.txt'' (name kf))
       in if isfile fs sidecar
          then \<exists>content. fs sidecar = Some (File content) \<and> password kf = strip content
          else \<exists>content. fs (keystores_password_file st) = Some (File content) \<and>
                 password kf = strip content)"
  proof
    fix kf assume "kf \<in> set files"
    with p have l: "load_keystores_password fs (password_file_for st fs (name kf)) = Inr (password kf)"
      by blast
    then show "let sidecar = path_join (keystores_password_dir st) (str_replace ''.json'' ''.txt'' (name kf))
       in if isfile fs sidecar
          then \<exists>content. fs sidecar = Some (File content) \<and> password kf = strip content
          else \<exists>content. fs (keystores_password_file st) = Some (File content) \<and>
                 password kf = strip content"
      by (auto simp: Let_def password_file_for_def load_keystores_password_def
          split: option.splits node.splits if_splits)
  qed
  with n show ?thesis by blast
qed

theorem password_from_sidecar_or_default_witness:
  "list_keystore_files scenario_settings scenario_fs =
     Inr [\<lparr>name = ''keystore1.json'', password = ''abc''\<rparr>,
          \<lparr>name = ''keystore2.json'', password = ''xyz''\<rparr>]
   \<and> map name [\<lparr>name = ''keystore1.json'', password = ''abc''\<rparr>,
               \<lparr>name = ''keystore2.json'', password = ''xyz''\<rparr>] =
       filter (is_keystore_name scenario_settings scenario_fs)
         [''keystore1.json'', ''keystore1.txt'', ''keystore2.json'', ''password.txt'']
   \<and> isfile scenario_fs [''keystores'', ''keystore1.txt'']
   \<and> \<not> isfile scenario_fs [''keystores'', ''keystore2.txt'']
   \<and> (\<exists>content. scenario_fs [''keystores'', ''keystore1.txt''] = Some (File content) \<and>
         ''abc'' = strip content)
   \<and> (\<exists>content. scenario_fs [''keystores'', ''password.txt''] = Some (File content) \<and>
         ''xyz'' = strip content)"
proof -
  have l: "listdir scenario_fs (keystores_dir scenario_settings) =
      Inr [''keystore1.json'', ''keystore1.txt'', ''keystore2.json'', ''password.txt'']"
    by (simp add: fs_defs)
  have r: "list_keystore_files scenario_settings scenario_fs =
     Inr [\<lparr>name = ''keystore1.json'', password = ''abc''\<rparr>,
          \<lparr>name = ''keystore2.json'', password = ''xyz''\<rparr>]"
    by (simp add: fs_defs)
  have i: "isfile scenario_fs [''keystores'', ''keystore1.txt'']
      \<and> \<not> isfile scenario_fs [''keystores'', ''keystore2.txt'']"
    by (simp add: fs_defs)
  note t = password_from_sidecar_or_default[OF l r]
  have s1: "str_replace ''.json'' ''.txt'' ''keystore1.json'' = ''keystore1.txt''"
    and s2: "str_replace ''.json'' ''.txt'' ''keystore2.json'' = ''keystore2.txt''"
    by (simp_all add: str_replace_def)
  have k: "keystores_password_dir scenario_settings = [''keystores'']"
    "keystores_password_file scenario_settings = [''keystores'', ''password.txt'']"
    by (simp_all add: scenario_settings_def)
  from t have "let sidecar = path_join (keystores_password_dir scenario_settings)
         (str_replace ''.json'' ''.txt'' (name \<lparr>name = ''keystore1.json'', password = ''abc''\<rparr>))
       in if isfile scenario_fs sidecar
          then \<exists>content. scenario_fs sidecar = Some (File content) \<and>
                 password \<lparr>name = ''keystore1.json'', password = ''abc''\<rparr> = strip content
          else \<exists>content. scenario_fs (keystores_password_file scenario_settings) = Some (File content) \<and>
                 password \<lparr>name = ''keystore1.json'', password = ''abc''\<rparr> = strip content"
    by simp
  with i have c1: "\<exists>content. scenario_fs [''keystores'', ''keystore1.txt''] = Some (File content) \<and>
         ''abc'' = strip content"
    by (simp add: Let_def s1 k path_join_def)
  from t have "let sidecar = path_join (keystores_password_dir scenario_settings)
         (str_replace ''.json'' ''.txt'' (name \<lparr>name = ''keystore2.json'', password = ''xyz''\<rparr>))
       in if isfile scenario_fs sidecar
          then \<exists>content. scenario_fs sidecar = Some (File content) \<and>
                 password \<lparr>name = ''keystore2.json'', password = ''xyz''\<rparr> = strip content
          else \<exists>content. scenario_fs (keystores_password_file scenario_settings) = Some (File content) \<and>
                 password \<lparr>name = ''keystore2.json'', password = ''xyz''\<rparr> = strip content"
    by simp
  with i have c2: "\<exists>content. scenario_fs [''keystores'', ''password.txt''] = Some (File content) \<and>
         ''xyz'' = strip content"
    by (simp add: Let_def s2 k path_join_def)
  from t r i c1 c2 show ?thesis by blast
qed

text \<open>
  Claim C8. When any listed keystore file fails in \<open>_process_keystore_file\<close>, whatever
  the timing of the pool, \<open>load_keystores\<close> raises. When it returns a mapping, every
  listed file was processed successfully and the keys of the mapping are exactly the
  public keys of all the files. In the witness one of two keystores is corrupted and the
  load raises \<open>RuntimeError\<close>; with both intact it returns both keys.
\<close>

theorem load_keystores_all_or_nothing:
  assumes "list_keystore_files st fs = Inr files"
  shows "((\<exists>kf\<in>set files. isl (process_keystore_file lib fs kf (keystores_dir st)))
            \<longrightarrow> isl (load_keystores lib st fs sched))
       \<and> (\<forall>keystores. load_keystores lib st fs sched = Inr keystores \<longrightarrow>
            (\<forall>kf\<in>set files. \<exists>pub priv.
               process_keystore_file lib fs kf (keystores_dir st) = Inr (pub, priv) \<and>
               pub \<in> dom (map_of keystores)) \<and>
            dom (map_of keystores) =
              {pub. \<exists>kf\<in>set files. \<exists>priv.
                 process_keystore_file lib fs kf (keystores_dir st) = Inr (pub, priv)})"
proof -
  let ?outcomes = "map (\<lambda>kf. process_keystore_file lib fs kf (keystores_dir st)) files"
  have load: "load_keystores lib st fs sched =
      (case apply_async_all sched ?outcomes of
         Inl e \<Rightarrow> Inl e
       | Inr results \<Rightarrow> collect_keystores results [])"
    using assms by (simp add: load_keystores_def)
  have fail: "(\<exists>kf\<in>set files. isl (process_keystore_file lib fs kf (keystores_dir st)))
      \<longrightarrow> isl (load_keystores lib st fs sched)"
  proof
    assume "\<exists>kf\<in>set files. isl (process_keystore_file lib fs kf (keystores_dir st))"
    then have ex: "\<exists>r\<in>set ?outcomes. isl r" by auto
    from apply_async_all_cases[of sched ?outcomes] show "isl (load_keystores lib st fs sched)"
    proof
      assume "apply_async_all sched ?outcomes = Inl (ValueError ''Pool not running'')"
      then show ?thesis by (simp add: load)
    next
      assume "apply_async_all sched ?outcomes = Inr ?outcomes"
      then show ?thesis using collect_keystores_fails[OF ex] by (simp add: load)
    qed
  qed
  have ok: "\<forall>keystores. load_keystores lib st fs sched = Inr keystores \<longrightarrow>
      (\<forall>kf\<in>set files. \<exists>pub priv.
         process_keystore_file lib fs kf (keystores_dir st) = Inr (pub, priv) \<and>
         pub \<in> dom (map_of keystores)) \<and>
      dom (map_of keystores) =
        {pub. \<exists>kf\<in>set files. \<exists>priv.
           process_keystore_file lib fs kf (keystores_dir st) = Inr (pub, priv)}"
  proof (intro allI impI)
    fix keystores
    assume r: "load_keystores lib st fs sched = Inr keystores"
    with load apply_async_all_cases[of sched ?outcomes]
    have c: "collect_keystores ?outcomes [] = Inr keystores" by auto
    from collect_keystores_returns[OF c] have
      all: "\<forall>r\<in>set ?outcomes. \<not> isl r" and
      d: "dom (map_of keystores) = {pub. \<exists>priv. Inr (pub, priv) \<in> set ?outcomes}"
      by auto
    have d': "dom (map_of keystores) =
        {pub. \<exists>kf\<in>set files. \<exists>priv.
           process_keystore_file lib fs kf (keystores_dir st) = Inr (pub, priv)}"
      unfolding d
    proof (intro set_eqI iffI; clarify)
      fix pub priv assume "Inr (pub, priv) \<in> set ?outcomes"
      then obtain kf where "kf \<in> set files"
        "process_keystore_file lib fs kf (keystores_dir st) = Inr (pub, priv)"
        by auto
      then show "\<exists>kf\<in>set files. \<exists>priv.
          process_keystore_file lib fs kf (keystores_dir st) = Inr (pub, priv)" by blast
    next
      fix pub kf priv
      assume "kf \<in> set files"
        "process_keystore_file lib fs kf (keystores_dir st) = Inr (pub, priv)"
      then have "Inr (pub, priv) \<in> set ?outcomes" by force
      then show "\<exists>priv. Inr (pub, priv) \<in> set ?outcomes" by blast
    qed
    have "\<forall>kf\<in>set files. \<exists>pub priv.
         process_keystore_file lib fs kf (keystores_dir st) = Inr (pub, priv) \<and>
         pub \<in> dom (map_of keystores)"
    proof
      fix kf assume kf: "kf \<in> set files"
      with all have "\<not> isl (process_keystore_file lib fs kf (keystores_dir st))" by simp
      then obtain pub priv where
        p: "process_keystore_file lib fs kf (keystores_dir st) = Inr (pub, priv)"
        by (cases "process_keystore_file lib fs kf (keystores_dir st)") auto
      with kf have "pub \<in> dom (map_of keystores)" unfolding d' by blast
      with p show "\<exists>pub priv.
         process_keystore_file lib fs kf (keystores_dir st) = Inr (pub, priv) \<and>
         pub \<in> dom (map_of keystores)" by blast
    qed
    with d' show "(\<forall>kf\<in>set files. \<exists>pub priv.
         process_keystore_file lib fs kf (keystores_dir st) = Inr (pub, priv) \<and>
         pub \<in> dom (map_of keystores)) \<and>
      dom (map_of keystores) =
        {pub. \<exists>kf\<in>set files. \<exists>priv.
           process_keystore_file lib fs kf (keystores_dir st) = Inr (pub, priv)}" by blast
  qed
  from fail ok show ?thesis by blast
qed

theorem load_keystores_all_or_nothing_witness:
  "list_keystore_files scenario_settings corrupted_fs =
     Inr [\<lparr>name = ''keystore1.json'', password = ''abc''\<rparr>,
          \<lparr>name = ''keystore2.json'', password = ''xyz''\<rparr>]
   \<and> isl (process_keystore_file example_keystore_lib corrupted_fs
            \<lparr>name = ''keystore2.json'', password = ''xyz''\<rparr> [''keystores''])
   \<and> isl (load_keystores example_keystore_lib scenario_settings corrupted_fs never_closed)
   \<and> load_keystores example_keystore_lib scenario_settings corrupted_fs never_closed =
       Inl (RuntimeError ''Failed to load keystores'')
   \<and> load_keystores example_keystore_lib scenario_settings scenario_fs never_closed =
       Inr [(''0xaa01'', [1]), (''0xaa02'', [2])]
   \<and> (\<exists>pub priv.
         process_keystore_file example_keystore_lib scenario_fs
           \<lparr>name = ''keystore2.json'', password = ''xyz''\<rparr> [''keystores''] = Inr (pub, priv) \<and>
         pub \<in> dom (map_of [(''0xaa01'', [1::8 word]), (''0xaa02'', [2])]))"
proof -
  have l: "list_keystore_files scenario_settings corrupted_fs =
     Inr [\<lparr>name = ''keystore1.json'', password = ''abc''\<rparr>,
          \<lparr>name = ''keystore2.json'', password = ''xyz''\<rparr>]"
    by (simp add: fs_defs)
  have k: "keystores_dir scenario_settings = [''keystores'']"
    by (simp add: scenario_settings_def)
  have p: "isl (process_keystore_file example_keystore_lib corrupted_fs
            \<lparr>name = ''keystore2.json'', password = ''xyz''\<rparr> [''keystores''])"
    by (simp add: keystore_defs fs_defs)
  have e: "\<exists>kf\<in>set [\<lparr>name = ''keystore1.json'', password = ''abc''\<rparr>,
          \<lparr>name = ''keystore2.json'', password = ''xyz''\<rparr>].
      isl (process_keystore_file example_keystore_lib corrupted_fs kf
             (keystores_dir scenario_settings))"
    using p k by simp
  have i: "isl (load_keystores example_keystore_lib scenario_settings corrupted_fs never_closed)"
    using load_keystores_all_or_nothing[OF l, of example_keystore_lib never_closed] e by blast
  have l2: "list_keystore_files scenario_settings scenario_fs =
     Inr [\<lparr>name = ''keystore1.json'', password = ''abc''\<rparr>,
          \<lparr>name = ''keystore2.json'', password = ''xyz''\<rparr>]"
    by (simp add: fs_defs)
  have a: "load_keystores example_keystore_lib scenario_settings corrupted_fs never_closed =
       Inl (RuntimeError ''Failed to load keystores'')"
    unfolding load_keystores_def l
    by (simp add: keystore_defs fs_defs)
  have b: "load_keystores example_keystore_lib scenario_settings scenario_fs never_closed =
       Inr [(''0xaa01'', [1]), (''0xaa02'', [2])]"
    unfolding load_keystores_def l2
    by (simp add: keystore_defs fs_defs)
  have c: "\<exists>pub priv.
         process_keystore_file example_keystore_lib scenario_fs
           \<lparr>name = ''keystore2.json'', password = ''xyz''\<rparr> [''keystores''] = Inr (pub, priv) \<and>
         pub \<in> dom (map_of [(''0xaa01'', [1::8 word]), (''0xaa02'', [2])])"
  proof -
    let ?files = "[\<lparr>name = ''keystore1.json'', password = ''abc''\<rparr>,
                   \<lparr>name = ''keystore2.json'', password = ''xyz''\<rparr>]"
    let ?keystores = "[(''0xaa01'', [1::8 word]), (''0xaa02'', [2])]"
    from load_keystores_all_or_nothing[OF l2, of example_keystore_lib never_closed] b
    have all: "\<forall>kf\<in>set ?files. \<exists>pub priv.
        process_keystore_file example_keystore_lib scenario_fs kf
          (keystores_dir scenario_settings) = Inr (pub, priv) \<and>
        pub \<in> dom (map_of ?keystores)"
      by blast
    have m: "\<lparr>name = ''keystore2.json'', password = ''xyz''\<rparr> \<in> set ?files" by simp
    from all m have "\<exists>pub priv.
        process_keystore_file example_keystore_lib scenario_fs
          \<lparr>name = ''keystore2.json'', password = ''xyz''\<rparr>
          (keystores_dir scenario_settings) = Inr (pub, priv) \<and>
        pub \<in> dom (map_of ?keystores)"
      by blast
    then show ?thesis unfolding k .
  qed
  from l p i a b c show ?thesis by blast
qed

section \<open>The validators tree is a function of its input\<close>

text \<open>
  Claim C7. The builder reads no clock, no random number and no file: its result is
  a function of the vault address and the deposit entries. Two runs on inputs that Python
  compares equal, dicts being compared by their items and not by the order of their keys,
  end in the same exception or return the same tree and the same validators, hence the
  same root and the same proof for every leaf.
\<close>

theorem generate_validators_tree_deterministic:
  assumes "list_all2 same_entry deposit_data deposit_data'"
  shows "generate_validators_tree lib vault deposit_data' =
           generate_validators_tree lib vault deposit_data
       \<and> (\<forall>tree validators tree' validators'.
            generate_validators_tree lib vault deposit_data = Inr (tree, validators) \<and>
            generate_validators_tree lib vault deposit_data' = Inr (tree', validators')
            \<longrightarrow> tree_root lib tree' = tree_root lib tree \<and>
                (\<forall>leaf. tree_get_proof lib tree' leaf = tree_get_proof lib tree leaf) \<and>
                validators' = validators)"
proof -
  have "generate_validators_tree lib vault deposit_data' =
      generate_validators_tree lib vault deposit_data"
    by (simp add: generate_validators_tree_def build_leaves_same_entries[OF assms]
        cong: sum.case_cong)
  then show ?thesis by auto
qed

theorem generate_validators_tree_deterministic_witness:
  "list_all2 same_entry example_deposit_data reordered_deposit_data
   \<and> reordered_deposit_data \<noteq> example_deposit_data
   \<and> generate_validators_tree example_merkle_lib ''0xvault'' reordered_deposit_data =
       generate_validators_tree example_merkle_lib ''0xvault'' example_deposit_data
   \<and> generate_validators_tree example_merkle_lib ''0xvault'' example_deposit_data =
       Inr ([([1, 0], 0), ([1, 1], 1)],
            [\<lparr>deposit_data_index = 0, public_key = ''0xaa'', deposit_signature = ''0xbb''\<rparr>,
             \<lparr>deposit_data_index = 1, public_key = ''0xcc'', deposit_signature = ''0xdd''\<rparr>])"
proof -
  have s: "list_all2 same_entry example_deposit_data reordered_deposit_data"
    by (simp add: example_deposit_data_def reordered_deposit_data_def)
  have n: "reordered_deposit_data \<noteq> example_deposit_data"
    by (simp add: example_deposit_data_def reordered_deposit_data_def)
  have g: "generate_validators_tree example_merkle_lib ''0xvault'' example_deposit_data =
       Inr ([([1, 0], 0), ([1, 1], 1)],
            [\<lparr>deposit_data_index = 0, public_key = ''0xaa'', deposit_signature = ''0xbb''\<rparr>,
             \<lparr>deposit_data_index = 1, public_key = ''0xcc'', deposit_signature = ''0xdd''\<rparr>])"
    by (simp add: merkle_defs)
  from generate_validators_tree_deterministic[OF s, of example_merkle_lib "''0xvault''"] s n g
  show ?thesis by blast
qed

text \<open>
  Claim C9. When the builder returns, there is one validator for each deposit entry, and
  the validator at position \<open>i\<close> has \<open>deposit_data_index = i\<close>, its public key is
  \<open>add_0x_prefix\<close> of the entry's \<open>pubkey\<close> and its signature is \<open>add_0x_prefix\<close> of the
  entry's \<open>signature\<close>.
\<close>

theorem validator_index_is_list_position:
  assumes "generate_validators_tree lib vault deposit_data = Inr (tree, validators)"
      and "i < length deposit_data"
  shows "length validators = length deposit_data
       \<and> deposit_data_index (validators ! i) = i
       \<and> (\<exists>pk sg.
            subscript (deposit_data ! i) ''pubkey'' = Inr pk \<and>
            add_0x_prefix lib pk = Inr (public_key (validators ! i)) \<and>
            subscript (deposit_data ! i) ''signature'' = Inr sg \<and>
            add_0x_prefix lib sg = Inr (deposit_signature (validators ! i)))"
proof -
  from assms(1) obtain credentials leaves where
    "build_leaves lib credentials deposit_data 0 [] [] = Inr (leaves, validators)"
    by (auto simp: generate_validators_tree_def split: sum.splits)
  from build_leaves_inv[OF this] assms(2) show ?thesis by auto
qed

theorem validator_index_is_list_position_witness:
  "generate_validators_tree example_merkle_lib ''0xvault'' example_deposit_data =
       Inr ([([1, 0], 0), ([1, 1], 1)],
            [\<lparr>deposit_data_index = 0, public_key = ''0xaa'', deposit_signature = ''0xbb''\<rparr>,
             \<lparr>deposit_data_index = 1, public_key = ''0xcc'', deposit_signature = ''0xdd''\<rparr>])
   \<and> deposit_data_index
        ([\<lparr>deposit_data_index = 0, public_key = ''0xaa'', deposit_signature = ''0xbb''\<rparr>,
          \<lparr>deposit_data_index = 1, public_key = ''0xcc'', deposit_signature = ''0xdd''\<rparr>] ! 1) = 1
   \<and> length
        [\<lparr>deposit_data_index = 0, public_key = ''0xaa'', deposit_signature = ''0xbb''\<rparr>,
         \<lparr>deposit_data_index = 1, public_key = ''0xcc'', deposit_signature = ''0xdd''\<rparr>]
       = length example_deposit_data"
proof -
  have g: "generate_validators_tree example_merkle_lib ''0xvault'' example_deposit_data =
       Inr ([([1, 0], 0), ([1, 1], 1)],
            [\<lparr>deposit_data_index = 0, public_key = ''0xaa'', deposit_signature = ''0xbb''\<rparr>,
             \<lparr>deposit_data_index = 1, public_key = ''0xcc'', deposit_signature = ''0xdd''\<rparr>])"
    by (simp add: merkle_defs)
  have i: "1 < length example_deposit_data" by (simp add: example_deposit_data_def)
  from validator_index_is_list_position[OF g i] g show ?thesis by blast
qed

end
